theory Spec2Isabelle
  imports Main "HOL-Library.Word"
begin

unbundle bit_operations_syntax

section \<open>Command building (device/commands.py)\<close>

subsection \<open>Python values\<close>

text \<open>
  A Python \<^verbatim>\<open>bytes\<close> or \<^verbatim>\<open>bytearray\<close> object is a list of 8-bit words; a Python
  \<^verbatim>\<open>int\<close> is an unbounded \<^typ>\<open>int\<close>. A call that raises returns \<open>Inl\<close> of the
  exception's class.
\<close>

type_synonym byte = "8 word"

text \<open>
  \<open>OverflowError\<close>, \<open>ValueError\<close>, \<open>IndexError\<close> and \<open>OSError\<close> are built-in
  exceptions of Python. \<open>EncodingError\<close> is the class the specification names for the size limit; the
  sources declare no such class (exceptions.py declares iPIXELError,
  iPIXELConnectionError and iPIXELTimeoutError only) and no definition below constructs it.
\<close>

datatype py_error = OverflowError | ValueError | IndexError | OSError | EncodingError

text \<open>\<^verbatim>\<open>n.to_bytes(k, 'little')\<close>: the \<open>k\<close> low bytes of \<open>n\<close>, least significant first;
  OverflowError when \<open>n\<close> is negative or does not fit in \<open>k\<close> bytes.\<close>

fun le_bytes :: "nat \<Rightarrow> int \<Rightarrow> byte list" where
  "le_bytes 0 n = []"
| "le_bytes (Suc k) n = word_of_int (n mod 256) # le_bytes k (n div 256)"

definition to_bytes_little :: "int \<Rightarrow> nat \<Rightarrow> py_error + byte list" where
  "to_bytes_little n k =
     (if n < 0 \<or> 256 ^ k \<le> n then Inl OverflowError else Inr (le_bytes k n))"

text \<open>\<^verbatim>\<open>int.from_bytes(bs, 'little')\<close>, the decoder of the fields written above.\<close>

fun from_bytes_little :: "byte list \<Rightarrow> int" where
  "from_bytes_little [] = 0"
| "from_bytes_little (b # bs) = uint b + 256 * from_bytes_little bs"

text \<open>\<^verbatim>\<open>bytes(xs)\<close> for a list of ints: ValueError unless every element is in
  \<^verbatim>\<open>range(0, 256)\<close>.\<close>

fun bytes_of_ints :: "int list \<Rightarrow> py_error + byte list" where
  "bytes_of_ints [] = Inr []"
| "bytes_of_ints (x # xs) =
     (if 0 \<le> x \<and> x < 256
      then (case bytes_of_ints xs of Inl e \<Rightarrow> Inl e | Inr bs \<Rightarrow> Inr (word_of_int x # bs))
      else Inl ValueError)"

text \<open>\<^verbatim>\<open>bytearray.append(v)\<close>: ValueError unless \<open>v\<close> is in \<^verbatim>\<open>range(0, 256)\<close>.\<close>

definition bytearray_append :: "byte list \<Rightarrow> int \<Rightarrow> py_error + byte list" where
  "bytearray_append buf v =
     (if 0 \<le> v \<and> v < 256 then Inr (buf @ [word_of_int v]) else Inl ValueError)"

text \<open>\<^verbatim>\<open>bytearray.extend(xs)\<close> for a list of ints.\<close>

definition bytearray_extend_ints :: "byte list \<Rightarrow> int list \<Rightarrow> py_error + byte list" where
  "bytearray_extend_ints buf xs =
     (case bytes_of_ints xs of Inl e \<Rightarrow> Inl e | Inr bs \<Rightarrow> Inr (buf @ bs))"

subsection \<open>CRC-32\<close>

text \<open>
  Modelled from the spec: \<^verbatim>\<open>zlib.crc32\<close> is imported from the standard library and is
  not under src/; the specification names it as the standard CRC-32 with the IEEE 802.3
  polynomial. This is the bitwise, reflected form (polynomial 0xEDB88320, initial value
  and final complement 0xFFFFFFFF); the result is the unsigned 32-bit value.
\<close>

definition crc32_shift :: "32 word \<Rightarrow> 32 word" where
  "crc32_shift c = (if bit c 0 then drop_bit 1 c XOR 0xEDB88320 else drop_bit 1 c)"

definition crc32_byte :: "32 word \<Rightarrow> byte \<Rightarrow> 32 word" where
  "crc32_byte c b = (crc32_shift ^^ 8) (c XOR ucast b)"

definition crc32 :: "byte list \<Rightarrow> int" where
  "crc32 data = uint (foldl crc32_byte 0xFFFFFFFF data XOR 0xFFFFFFFF)"

subsection \<open>The commands\<close>

definition make_command_payload :: "int \<Rightarrow> byte list \<Rightarrow> py_error + byte list" where
  "make_command_payload opcode payload =
     (let total_length = int (length payload) + 4;
          command = []
      in case to_bytes_little total_length 2 of
           Inl e \<Rightarrow> Inl e
         | Inr len_bytes \<Rightarrow>
             (let command = command @ len_bytes
              in case to_bytes_little opcode 2 of
                   Inl e \<Rightarrow> Inl e
                 | Inr op_bytes \<Rightarrow>
                     (let command = command @ op_bytes;
                          command = command @ payload
                      in Inr command)))"

definition make_power_command :: "bool \<Rightarrow> py_error + byte list" where
  "make_power_command on = (let on_byte = (if on then 1 else 0) in bytes_of_ints [5, 0, 7, 1, on_byte])"

definition make_diy_mode_command :: "int \<Rightarrow> py_error + byte list" where
  "make_diy_mode_command mode = bytes_of_ints [5, 0, 4, 1, mode]"

text \<open>The call \<^verbatim>\<open>make_diy_mode_command()\<close>, which takes the default \<^verbatim>\<open>mode = 1\<close>.\<close>

definition make_diy_mode_command_default :: "py_error + byte list" where
  "make_diy_mode_command_default = make_diy_mode_command 1"

definition make_default_mode_command :: "py_error + byte list" where
  "make_default_mode_command = make_command_payload 0x8003 []"

definition make_png_command :: "byte list \<Rightarrow> int \<Rightarrow> py_error + byte list" where
  "make_png_command png_data buffer_number =
     (let data_size = int (length png_data);
          data_crc = crc32 png_data AND 0xFFFFFFFF;
          payload = [];
          payload = payload @ [0x00]
      in case to_bytes_little data_size 4 of
           Inl e \<Rightarrow> Inl e
         | Inr size_bytes \<Rightarrow>
             (let payload = payload @ size_bytes
              in case to_bytes_little data_crc 4 of
                   Inl e \<Rightarrow> Inl e
                 | Inr crc_bytes \<Rightarrow>
                     (let payload = payload @ crc_bytes;
                          payload = payload @ [0x00]
                      in case bytearray_append payload buffer_number of
                           Inl e \<Rightarrow> Inl e
                         | Inr payload \<Rightarrow>
                             (let payload = payload @ png_data;
                                  command = [];
                                  total_length = int (length payload) + 4
                              in case to_bytes_little total_length 2 of
                                   Inl e \<Rightarrow> Inl e
                                 | Inr len_bytes \<Rightarrow>
                                     (let command = command @ len_bytes
                                      in case bytearray_extend_ints command [0x02, 0x00] of
                                           Inl e \<Rightarrow> Inl e
                                         | Inr command \<Rightarrow> Inr (command @ payload))))))"

text \<open>The call \<^verbatim>\<open>make_png_command(png_data)\<close>, which takes the default
  \<^verbatim>\<open>buffer_number = 1\<close>.\<close>

definition make_png_command_default :: "byte list \<Rightarrow> py_error + byte list" where
  "make_png_command_default png_data = make_png_command png_data 1"

subsection \<open>Decoding a frame, and the layout the specification gives\<close>

definition decode_header :: "byte list \<Rightarrow> int \<times> int \<times> byte list" where
  "decode_header frame =
     (from_bytes_little (take 2 frame), from_bytes_little (take 2 (drop 2 frame)), drop 4 frame)"

definition png_payload_layout :: "byte list \<Rightarrow> byte \<Rightarrow> byte list" where
  "png_payload_layout image_bytes buffer_number =
     [0x00] @ le_bytes 4 (int (length image_bytes)) @ le_bytes 4 (crc32 image_bytes)
       @ [0x00] @ [buffer_number] @ image_bytes"


section \<open>Text rendering (display/text_renderer.py)\<close>

subsection \<open>Pillow and the fonts folder\<close>

text \<open>
  The renderer calls the Pillow library (\<^verbatim>\<open>Image\<close>, \<^verbatim>\<open>ImageDraw\<close>, \<^verbatim>\<open>ImageFont\<close>) and
  looks a font file up in the fonts folder. Neither is part of the sources, so both are
  parameters of the model: a record of the calls the renderer makes, over an opaque type
  of font objects and an opaque type of images. Every Pillow call may raise. The
  \<^verbatim>\<open>ImageDraw.Draw\<close> object is identified with the image it draws on.
\<close>

datatype mode = Mode_1 | Mode_RGB

datatype colour = Index int | RGB int int int

type_synonym bbox = "int \<times> int \<times> int \<times> int"

record ('font, 'img) pil =
  path_exists :: "string \<Rightarrow> bool"
  truetype :: "string \<Rightarrow> int \<Rightarrow> py_error + 'font"
  load_default :: "py_error + 'font"
  textbbox :: "'img \<Rightarrow> 'font \<Rightarrow> string \<Rightarrow> py_error + bbox"
  image_new :: "mode \<Rightarrow> int \<times> int \<Rightarrow> colour \<Rightarrow> py_error + 'img"
  draw_text :: "'img \<Rightarrow> int \<times> int \<Rightarrow> string \<Rightarrow> 'font \<Rightarrow> colour \<Rightarrow> py_error + 'img"
  point_255 :: "'img \<Rightarrow> py_error + 'img"
  paste :: "'img \<Rightarrow> 'img \<Rightarrow> int \<times> int \<Rightarrow> py_error + 'img"
  save_png :: "'img \<Rightarrow> py_error + byte list"

text \<open>A call raises when its result is an exception.\<close>

definition raises :: "py_error + 'a \<Rightarrow> bool" where
  "raises r = (case r of Inl e \<Rightarrow> True | Inr v \<Rightarrow> False)"

subsection \<open>Strings\<close>

text \<open>\<^verbatim>\<open>str.lower\<close> on ASCII letters, \<^verbatim>\<open>str.endswith\<close>.\<close>

definition lower_char :: "char \<Rightarrow> char" where
  "lower_char c =
     (let n = (of_char c :: nat) in if 65 \<le> n \<and> n \<le> 90 then char_of (n + 32) else c)"

definition lower :: "string \<Rightarrow> string" where
  "lower s = map lower_char s"

definition endswith :: "string \<Rightarrow> string \<Rightarrow> bool" where
  "endswith s ext = (length ext \<le> length s \<and> drop (length s - length ext) s = ext)"

text \<open>\<^verbatim>\<open>s.split(sep)\<close> for a one-character separator.\<close>

fun split_on :: "char \<Rightarrow> string \<Rightarrow> string list" where
  "split_on sep [] = [[]]"
| "split_on sep (c # cs) =
     (if c = sep then [] # split_on sep cs
      else (case split_on sep cs of [] \<Rightarrow> [[c]] | l # ls \<Rightarrow> (c # l) # ls))"

text \<open>Truth value of an optional string: \<^verbatim>\<open>None\<close> and the empty string are false.\<close>

definition truthy :: "string option \<Rightarrow> bool" where
  "truthy s = (case s of None \<Rightarrow> False | Some v \<Rightarrow> v \<noteq> [])"

subsection \<open>Font lookup\<close>

definition MIN_FONT_SIZE :: int where
  "MIN_FONT_SIZE = 4"

text \<open>
  \<^verbatim>\<open>_get_font_path\<close>: the file name, with \<^verbatim>\<open>.ttf\<close> appended when it has none of the known
  extensions, if the fonts folder has such a file. The path is given relative to the
  fonts folder. (The warning it logs is not modelled.)
\<close>

definition get_font_path :: "('font, 'img) pil \<Rightarrow> string \<Rightarrow> string option" where
  "get_font_path env font_name =
     (let font_name =
            (if \<not> list_ex (\<lambda>ext. endswith (lower font_name) ext)
                    [''.ttf'', ''.otf'', ''.woff'', ''.woff2'']
             then font_name @ ''.ttf'' else font_name)
      in if path_exists env font_name then Some font_name else None)"

text \<open>
  The block both font functions share: the named font at the given size, or nothing when
  no name is given, the file is not found, or \<^verbatim>\<open>ImageFont.truetype\<close> raises (the
  exception is caught and logged). The source's variable \<^verbatim>\<open>size\<close> is written \<open>sz\<close>.
\<close>

definition custom_font :: "('font, 'img) pil \<Rightarrow> string option \<Rightarrow> int \<Rightarrow> 'font option" where
  "custom_font env font_name sz =
     (if truthy font_name
      then (case get_font_path env (the font_name) of
              None \<Rightarrow> None
            | Some font_path \<Rightarrow>
                (case truetype env font_path sz of Inl e \<Rightarrow> None | Inr f \<Rightarrow> Some f))
      else None)"

text \<open>The font a pass of the auto-fit loop measures with: the named font at that size,
  or the built-in font when there is none.\<close>

definition font_for_size :: "('font, 'img) pil \<Rightarrow> string option \<Rightarrow> int \<Rightarrow> py_error + 'font" where
  "font_for_size env font_name sz =
     (case custom_font env font_name sz of
        None \<Rightarrow> load_default env
      | Some f \<Rightarrow> Inr f)"

definition get_fixed_font :: "('font, 'img) pil \<Rightarrow> int \<Rightarrow> string option \<Rightarrow> py_error + 'font" where
  "get_fixed_font env sz font_name =
     (case custom_font env font_name sz of
        Some f \<Rightarrow> Inr f
      | None \<Rightarrow>
          (case load_default env of
             Inr f \<Rightarrow> Inr f
           | Inl e \<Rightarrow> load_default env))"

subsection \<open>Auto-fit\<close>

text \<open>\<^verbatim>\<open>range(start, stop, -1)\<close>.\<close>

function range_down :: "int \<Rightarrow> int \<Rightarrow> int list" where
  "range_down start stop = (if stop < start then start # range_down (start - 1) stop else [])"
  by pat_completeness auto
termination
  by (relation "measure (\<lambda>(start, stop). nat (start - stop))") auto

declare range_down.simps [simp del]

text \<open>
  The inner loop over the lines: \<open>(fits, total_height)\<close> when it ends, by exhaustion or
  by the \<^verbatim>\<open>break\<close> at a line that is too wide.
\<close>

fun check_lines ::
  "('font, 'img) pil \<Rightarrow> 'img \<Rightarrow> 'font \<Rightarrow> int \<Rightarrow> string list \<Rightarrow> int \<Rightarrow> py_error + (bool \<times> int)" where
  "check_lines env draw font max_width [] total_height = Inr (True, total_height)"
| "check_lines env draw font max_width (line # rest) total_height =
     (case textbbox env draw font line of
        Inl e \<Rightarrow> Inl e
      | Inr (x0, y0, x1, y1) \<Rightarrow>
          (let text_width = x1 - x0;
               text_height = y1 - y0
           in if max_width < text_width then Inr (False, total_height)
              else check_lines env draw font max_width rest (total_height + text_height)))"

text \<open>
  One pass of the loop over the sizes: the font to return, or nothing when the loop goes
  on to the next size, because the text does not fit or because an exception was caught.
\<close>

definition try_size ::
  "('font, 'img) pil \<Rightarrow> 'img \<Rightarrow> string list \<Rightarrow> int \<Rightarrow> int \<Rightarrow> string option \<Rightarrow> int \<Rightarrow> 'font option" where
  "try_size env draw lines max_width max_height font_name sz =
     (case font_for_size env font_name sz of
        Inl e \<Rightarrow> None
      | Inr font \<Rightarrow>
          (case check_lines env draw font max_width lines 0 of
             Inl e \<Rightarrow> None
           | Inr (fits, total_height) \<Rightarrow>
               (let fits = (if max_height < total_height then False else fits)
                in if fits then Some font else None)))"

fun search_sizes ::
  "('font, 'img) pil \<Rightarrow> 'img \<Rightarrow> string list \<Rightarrow> int \<Rightarrow> int \<Rightarrow> string option \<Rightarrow> int list
     \<Rightarrow> py_error + 'font" where
  "search_sizes env draw lines max_width max_height font_name [] = load_default env"
| "search_sizes env draw lines max_width max_height font_name (sz # sizes) =
     (case try_size env draw lines max_width max_height font_name sz of
        Some font \<Rightarrow> Inr font
      | None \<Rightarrow> search_sizes env draw lines max_width max_height font_name sizes)"

definition get_optimal_font ::
  "('font, 'img) pil \<Rightarrow> 'img \<Rightarrow> string list \<Rightarrow> int \<Rightarrow> int \<Rightarrow> string option \<Rightarrow> py_error + 'font" where
  "get_optimal_font env draw lines max_width max_height font_name =
     search_sizes env draw lines max_width max_height font_name
       (range_down (min max_height max_width) MIN_FONT_SIZE)"

subsection \<open>Rendering\<close>

definition text_lines :: "string \<Rightarrow> string list" where
  "text_lines text = (if CHR 0x0A \<in> set text then split_on (CHR 0x0A) text else [text])"

text \<open>The first loop: the total height and the list of line heights.\<close>

fun measure_heights ::
  "('font, 'img) pil \<Rightarrow> 'img \<Rightarrow> 'font \<Rightarrow> string list \<Rightarrow> int \<Rightarrow> int list
     \<Rightarrow> py_error + (int \<times> int list)" where
  "measure_heights env draw font_obj [] total_height line_heights = Inr (total_height, line_heights)"
| "measure_heights env draw font_obj (line # rest) total_height line_heights =
     (case textbbox env draw font_obj line of
        Inl e \<Rightarrow> Inl e
      | Inr (x0, y0, x1, y1) \<Rightarrow>
          (let line_height = y1 - y0
           in measure_heights env draw font_obj rest
                (total_height + line_height) (line_heights @ [line_height])))"

text \<open>The second loop, over \<^verbatim>\<open>enumerate(lines)\<close> from index \<open>i\<close> on: the image after the
  lines are drawn.\<close>

fun draw_lines ::
  "('font, 'img) pil \<Rightarrow> 'font \<Rightarrow> int \<Rightarrow> bool \<Rightarrow> int list \<Rightarrow> 'img \<Rightarrow> int \<Rightarrow> nat \<Rightarrow> string list
     \<Rightarrow> py_error + 'img" where
  "draw_lines env font_obj width antialias line_heights draw current_y i [] = Inr draw"
| "draw_lines env font_obj width antialias line_heights draw current_y i (line # rest) =
     (case textbbox env draw font_obj line of
        Inl e \<Rightarrow> Inl e
      | Inr (x0, y0, x1, y1) \<Rightarrow>
          (let text_width = x1 - x0;
               x = (width - text_width) div 2
           in case (if \<not> antialias
                    then draw_text env draw (x, current_y) line font_obj (Index 1)
                    else draw_text env draw (x, current_y) line font_obj (RGB 255 255 255)) of
                Inl e \<Rightarrow> Inl e
              | Inr draw \<Rightarrow>
                  (if i < length line_heights
                   then draw_lines env font_obj width antialias line_heights draw
                          (current_y + line_heights ! i) (Suc i) rest
                   else Inl IndexError)))"

definition render_text_to_png ::
  "('font, 'img) pil \<Rightarrow> string \<Rightarrow> int \<Rightarrow> int \<Rightarrow> bool \<Rightarrow> int option \<Rightarrow> string option
     \<Rightarrow> py_error + byte list" where
  "render_text_to_png env text width height antialias font_size font =
     (case (if \<not> antialias then image_new env Mode_1 (width, height) (Index 0)
            else image_new env Mode_RGB (width, height) (RGB 0 0 0)) of
        Inl e \<Rightarrow> Inl e
      | Inr img \<Rightarrow>
          (let lines = text_lines text
           in case (case font_size of
                      Some fixed_size \<Rightarrow> get_fixed_font env fixed_size font
                    | None \<Rightarrow> get_optimal_font env img lines width height font) of
                Inl e \<Rightarrow> Inl e
              | Inr font_obj \<Rightarrow>
                  (case measure_heights env img font_obj lines 0 [] of
                     Inl e \<Rightarrow> Inl e
                   | Inr (total_height, line_heights) \<Rightarrow>
                       (let y_start = (height - total_height) div 2
                        in case draw_lines env font_obj width antialias line_heights img
                                  y_start 0 lines of
                             Inl e \<Rightarrow> Inl e
                           | Inr img \<Rightarrow>
                               (if \<not> antialias
                                then (case image_new env Mode_RGB (width, height) (RGB 0 0 0) of
                                        Inl e \<Rightarrow> Inl e
                                      | Inr rgb_img \<Rightarrow>
                                          (case point_255 env img of
                                             Inl e \<Rightarrow> Inl e
                                           | Inr pointed \<Rightarrow>
                                               (case paste env rgb_img pointed (0, 0) of
                                                  Inl e \<Rightarrow> Inl e
                                                | Inr rgb_img \<Rightarrow> save_png env rgb_img)))
                                else save_png env img)))))"

subsection \<open>The parts of a rendering\<close>

text \<open>
  Names for what \<open>render_text_to_png\<close> does before it measures: the canvas it creates
  (lines 58 to 61), the font it selects (lines 68 to 71) and the fill colour of the text
  (lines 95 to 98). The named font is unavailable at a size when no name is given, when
  \<open>get_font_path\<close> does not find the file, or when \<^verbatim>\<open>ImageFont.truetype\<close> raises on it.
\<close>

definition new_canvas :: "('font, 'img) pil \<Rightarrow> int \<Rightarrow> int \<Rightarrow> bool \<Rightarrow> py_error + 'img" where
  "new_canvas env width height antialias =
     (if \<not> antialias then image_new env Mode_1 (width, height) (Index 0)
      else image_new env Mode_RGB (width, height) (RGB 0 0 0))"

definition select_font ::
  "('font, 'img) pil \<Rightarrow> 'img \<Rightarrow> string list \<Rightarrow> int \<Rightarrow> int \<Rightarrow> int option \<Rightarrow> string option
     \<Rightarrow> py_error + 'font" where
  "select_font env draw lines width height font_size font =
     (case font_size of
        Some fixed_size \<Rightarrow> get_fixed_font env fixed_size font
      | None \<Rightarrow> get_optimal_font env draw lines width height font)"

definition text_fill :: "bool \<Rightarrow> colour" where
  "text_fill antialias = (if \<not> antialias then Index 1 else RGB 255 255 255)"

definition font_unavailable :: "('font, 'img) pil \<Rightarrow> string option \<Rightarrow> int \<Rightarrow> bool" where
  "font_unavailable env font_name sz =
     (case font_name of
        None \<Rightarrow> True
      | Some name \<Rightarrow>
          name = [] \<or>
          (case get_font_path env name of
             None \<Rightarrow> True
           | Some font_path \<Rightarrow> raises (truetype env font_path sz)))"

subsection \<open>Comparing the measurements of two fonts\<close>

text \<open>
  Width and height of a bounding box, as the renderer computes them
  (\<^verbatim>\<open>bbox[2] - bbox[0]\<close> and \<^verbatim>\<open>bbox[3] - bbox[1]\<close>). Font \<open>g\<close> measures a line within
  font \<open>f\<close> when both measurements succeed and the box of \<open>g\<close> is no wider and no
  taller than the box of \<open>f\<close>.
\<close>

definition bbox_width :: "bbox \<Rightarrow> int" where
  "bbox_width b = (case b of (x0, y0, x1, y1) \<Rightarrow> x1 - x0)"

definition bbox_height :: "bbox \<Rightarrow> int" where
  "bbox_height b = (case b of (x0, y0, x1, y1) \<Rightarrow> y1 - y0)"

definition measures_within :: "('font, 'img) pil \<Rightarrow> 'img \<Rightarrow> 'font \<Rightarrow> 'font \<Rightarrow> string \<Rightarrow> bool" where
  "measures_within env draw g f line =
     (case textbbox env draw g line of
        Inl e \<Rightarrow> False
      | Inr bg \<Rightarrow>
          (case textbbox env draw f line of
             Inl e \<Rightarrow> False
           | Inr bf \<Rightarrow> bbox_width bg \<le> bbox_width bf \<and> bbox_height bg \<le> bbox_height bf))"

subsection \<open>Concrete fonts folders and Pillow behaviours\<close>

text \<open>
  Environments to run the renderer in. The folder holds the one font file
  \<^verbatim>\<open>pixel.ttf\<close>; \<open>loads\<close> tells at which sizes \<^verbatim>\<open>ImageFont.truetype\<close> opens it
  (OSError otherwise). A glyph of the named font at size \<open>s\<close> is half as wide as it is
  tall (\<open>s div 2\<close> by \<open>s\<close>); a glyph of the built-in font is 6 by 11. With a limit,
  measuring or drawing a longer string raises ValueError, as Pillow does from version 10
  (\<^verbatim>\<open>ImageFont.MAX_STRING_LENGTH\<close>, 1000000 characters). An image is the list of the
  strings drawn on it, and its PNG file is cut down to the 8-byte PNG signature.
\<close>

datatype demo_font = Sized string int | Builtin

definition demo_bbox :: "demo_font \<Rightarrow> string \<Rightarrow> bbox" where
  "demo_bbox f s =
     (case f of
        Sized p sz \<Rightarrow> (0, 0, (sz div 2) * int (length s), sz)
      | Builtin \<Rightarrow> (0, 0, 6 * int (length s), 11))"

definition demo_pil :: "(int \<Rightarrow> bool) \<Rightarrow> nat option \<Rightarrow> (demo_font, string list) pil" where
  "demo_pil loads limit =
     \<lparr> path_exists = (\<lambda>p. p = ''pixel.ttf''),
       truetype = (\<lambda>p sz. if loads sz then Inr (Sized p sz) else Inl OSError),
       load_default = Inr Builtin,
       textbbox = (\<lambda>img f s.
          (case limit of
             None \<Rightarrow> Inr (demo_bbox f s)
           | Some n \<Rightarrow> if n < length s then Inl ValueError else Inr (demo_bbox f s))),
       image_new = (\<lambda>m wh c. Inr []),
       draw_text = (\<lambda>img xy s f c.
          (case limit of
             None \<Rightarrow> Inr (img @ [s])
           | Some n \<Rightarrow> if n < length s then Inl ValueError else Inr (img @ [s]))),
       point_255 = (\<lambda>img. Inr img),
       paste = (\<lambda>base img xy. Inr img),
       save_png = (\<lambda>img. Inr [0x89, 0x50, 0x4E, 0x47, 0x0D, 0x0A, 0x1A, 0x0A]) \<rparr>"

text \<open>A scalable font file, and Pillow 10's length limit.\<close>

definition scalable_pil :: "(demo_font, string list) pil" where
  "scalable_pil = demo_pil (\<lambda>sz. 0 < sz) (Some 1000000)"

text \<open>A font file that opens at size 8 only (a single bitmap strike).\<close>

definition strike_pil :: "(demo_font, string list) pil" where
  "strike_pil = demo_pil (\<lambda>sz. sz = 8) (Some 1000000)"

text \<open>A folder in which the font file does not open at any size (a corrupt file).\<close>

definition corrupt_pil :: "(demo_font, string list) pil" where
  "corrupt_pil = demo_pil (\<lambda>sz. False) None"

section \<open>Properties of the command encoder\<close>

lemma length_le_bytes: "length (le_bytes k n) = k"
  by (induction k arbitrary: n) simp_all

lemma le_bytes_2: "le_bytes 2 n = [word_of_int (n mod 256), word_of_int (n div 256 mod 256)]"
  by (simp add: numeral_2_eq_2)

lemma le_bytes_4:
  "le_bytes 4 n = [word_of_int (n mod 256), word_of_int (n div 256 mod 256),
     word_of_int (n div 256 div 256 mod 256), word_of_int (n div 256 div 256 div 256 mod 256)]"
  by (simp add: eval_nat_numeral)

lemma uint_byte_of_mod: "uint (word_of_int (n mod 256) :: byte) = n mod 256"
  by (simp add: uint_word_of_int)

lemma from_le_bytes:
  "0 \<le> n \<Longrightarrow> n < 256 ^ k \<Longrightarrow> from_bytes_little (le_bytes k n) = n"
proof (induction k arbitrary: n)
  case 0
  then show ?case by simp
next
  case (Suc k)
  have "0 \<le> n div 256" using Suc.prems(1) by simp
  moreover have "n div 256 < 256 ^ k" using Suc.prems(2) by (simp add: div_less_iff_less_mult mult.commute) 
  ultimately have "from_bytes_little (le_bytes k (n div 256)) = n div 256"
    by (rule Suc.IH)
  then show ?case by (simp add: uint_byte_of_mod)
qed

lemma to_bytes_little_ok:
  "0 \<le> n \<Longrightarrow> n < 256 ^ k \<Longrightarrow> to_bytes_little n k = Inr (le_bytes k n)"
  by (simp add: to_bytes_little_def)

lemma to_bytes_little_overflow:
  "256 ^ k \<le> n \<Longrightarrow> to_bytes_little n k = Inl OverflowError"
  by (simp add: to_bytes_little_def)

lemma make_default_mode_command_bytes: "make_default_mode_command = Inr [4, 0, 3, 128]"
  by (simp add: make_default_mode_command_def make_command_payload_def to_bytes_little_def
      le_bytes_2)

lemma make_command_payload_ok:
  assumes "0 \<le> opcode" "opcode < 65536" "length payload \<le> 65531"
  shows "make_command_payload opcode payload =
           Inr (le_bytes 2 (int (length payload) + 4) @ le_bytes 2 opcode @ payload)"
  using assms by (simp add: make_command_payload_def to_bytes_little_def)

text \<open>
  Claim C3. The byte literals of \<open>make_power_command\<close> and \<open>make_diy_mode_command\<close>
  are the frames that \<open>make_command_payload\<close> builds: for every boolean \<open>on\<close> the
  power command is the frame of opcode 0x0107 around the one byte \<open>on ? 1 : 0\<close>, that
  is the five bytes 5, 0, 7, 1, \<open>on ? 1 : 0\<close>; for every mode byte the DIY command is
  the frame of opcode 0x0104 around that byte.
\<close>

theorem power_diy_literals_match_framing:
  fixes mode :: byte
  shows "make_power_command on = make_command_payload 0x0107 [if on then 1 else 0]
       \<and> make_power_command on = Inr [5, 0, 7, 1, if on then 1 else 0]
       \<and> make_diy_mode_command (uint mode) = make_command_payload 0x0104 [mode]"
proof -
  have m: "uint mode < 256" using uint_bounded [of mode] by simp
  have p: "make_power_command on = Inr [5, 0, 7, 1, if on then 1 else 0]"
    by (simp add: make_power_command_def)
  have f: "make_command_payload 0x0107 [if on then 1 else 0] = Inr [5, 0, 7, 1, if on then 1 else 0]"
    by (simp add: make_command_payload_def to_bytes_little_def le_bytes_2)
  have d: "make_diy_mode_command (uint mode) = Inr [5, 0, 4, 1, mode]"
    using m by (simp add: make_diy_mode_command_def)
  have g: "make_command_payload 0x0104 [mode] = Inr [5, 0, 4, 1, mode]"
    by (simp add: make_command_payload_def to_bytes_little_def le_bytes_2)
  show ?thesis using p f d g by simp
qed

text \<open>
  Claim C4. For an opcode that fits in 16 bits and a payload of \<open>L \<le> 65531\<close> bytes,
  \<open>make_command_payload\<close> returns a buffer of \<open>L + 4\<close> bytes whose first two bytes,
  read as a little-endian integer, are \<open>L + 4\<close>.
\<close>

theorem framing_length_field:
  assumes "0 \<le> opcode" "opcode < 65536" "length payload \<le> 65531"
  shows "\<exists>out. make_command_payload opcode payload = Inr out
           \<and> int (length out) = int (length payload) + 4
           \<and> from_bytes_little (take 2 out) = int (length payload) + 4"
proof -
  let ?out = "le_bytes 2 (int (length payload) + 4) @ le_bytes 2 opcode @ payload"
  have r: "make_command_payload opcode payload = Inr ?out"
    using assms by (rule make_command_payload_ok)
  have l: "int (length ?out) = int (length payload) + 4"
    by (simp add: length_le_bytes)
  have "take 2 ?out = le_bytes 2 (int (length payload) + 4)"
    by (simp add: length_le_bytes)
  moreover have "from_bytes_little (le_bytes 2 (int (length payload) + 4)) = int (length payload) + 4"
    using assms(3) by (intro from_le_bytes) simp_all
  ultimately show ?thesis using r l by simp
qed

theorem framing_length_field_witness:
  "make_command_payload 0x0107 [1] = Inr [5, 0, 7, 1, 1]
     \<and> (\<exists>out. make_command_payload 0x0107 [1] = Inr out
           \<and> int (length out) = 5 \<and> from_bytes_little (take 2 out) = 5)"
  using framing_length_field [of "0x0107" "[1]"]
  by (simp add: make_command_payload_def to_bytes_little_def le_bytes_2)

lemma crc32_range: "0 \<le> crc32 d \<and> crc32 d < 2 ^ 32"
  unfolding crc32_def
  using uint_bounded [of "foldl crc32_byte 0xFFFFFFFF d XOR 0xFFFFFFFF"] by simp

lemma crc32_masked: "crc32 d AND 0xFFFFFFFF = crc32 d"
proof -
  have m: "(0xFFFFFFFF::int) = mask 32" by (simp add: mask_eq_exp_minus_1)
  have "take_bit 32 (crc32 d) = crc32 d"
    using crc32_range [of d] by (intro take_bit_int_eq_self) simp_all
  then show ?thesis unfolding m by (simp add: take_bit_eq_mask)
qed

lemma le_bytes_2_2: "le_bytes 2 2 = [2, 0]"
  by (simp add: le_bytes_2)

lemma crc32_empty: "crc32 [] = 0"
  by (simp add: crc32_def)

text \<open>The model of CRC-32 gives the standard check value, the CRC of the ASCII digits
  \<^verbatim>\<open>123456789\<close>.\<close>

lemma crc32_byte_unfold:
  "crc32_byte c b = crc32_shift (crc32_shift (crc32_shift (crc32_shift
      (crc32_shift (crc32_shift (crc32_shift (crc32_shift (c XOR ucast b))))))))"
  by (simp add: crc32_byte_def eval_nat_numeral)
lemma crc32_shift_alt: "crc32_shift c = (if odd c then (c div 2) XOR 0xEDB88320 else c div 2)"
  by (simp add: crc32_shift_def bit_0 drop_bit_eq_div)
lemma crc32_check_value: "crc32 [0x31, 0x32, 0x33, 0x34, 0x35, 0x36, 0x37, 0x38, 0x39] = 0xCBF43926"
  by (simp add: crc32_def crc32_byte_unfold crc32_shift_alt)

lemma make_png_command_unfold:
  assumes "length png < 2 ^ 32"
  shows "make_png_command png b =
     (if 0 \<le> b \<and> b < 256
      then (if int (length png) + 15 < 65536
            then Inr (le_bytes 2 (int (length png) + 15) @ [2, 0] @
                      [0] @ le_bytes 4 (int (length png)) @ le_bytes 4 (crc32 png) @ [0] @ [word_of_int b] @ png)
            else Inl OverflowError)
      else Inl ValueError)"
proof -
  have c: "to_bytes_little (crc32 png) 4 = Inr (le_bytes 4 (crc32 png))"
    using crc32_range [of png] by (intro to_bytes_little_ok) simp_all
  have s: "to_bytes_little (int (length png)) 4 = Inr (le_bytes 4 (int (length png)))"
    using assms by (intro to_bytes_little_ok) simp_all
  show ?thesis
    unfolding make_png_command_def Let_def crc32_masked c s
    by (simp add: bytearray_append_def bytearray_extend_ints_def to_bytes_little_def length_le_bytes
        add.commute [of "int (length png)" 15])
qed

lemma make_png_command_huge:
  assumes "2 ^ 32 \<le> length png"
  shows "make_png_command png b = Inl OverflowError"
proof -
  have "(256::int) ^ 4 \<le> int (length png)" using assms by simp
  then have "to_bytes_little (int (length png)) 4 = Inl OverflowError"
    by (rule to_bytes_little_overflow)
  then show ?thesis unfolding make_png_command_def Let_def by simp
qed

text \<open>
  Claim C5. Round trip: for a 16-bit opcode and a payload of at most 65531 bytes, decoding
  the header of the frame (bytes 0-1 the little-endian length, bytes 2-3 the little-endian
  opcode) gives back the payload length plus 4 and the opcode, and the bytes after the
  header are the payload.
\<close>

theorem framing_round_trip:
  assumes "0 \<le> opcode" "opcode < 65536" "length payload \<le> 65531"
  shows "\<exists>out. make_command_payload opcode payload = Inr out
           \<and> decode_header out = (int (length payload) + 4, opcode, payload)"
proof -
  let ?l = "le_bytes 2 (int (length payload) + 4)"
  let ?o = "le_bytes 2 opcode"
  have r: "make_command_payload opcode payload = Inr (?l @ ?o @ payload)"
    using assms by (rule make_command_payload_ok)
  have a: "from_bytes_little ?l = int (length payload) + 4"
    using assms(3) by (intro from_le_bytes) simp_all
  have b: "from_bytes_little ?o = opcode"
    using assms(1,2) by (intro from_le_bytes) simp_all
  have "decode_header (?l @ ?o @ payload) = (from_bytes_little ?l, from_bytes_little ?o, payload)"
    by (simp add: decode_header_def length_le_bytes)
  then show ?thesis using r a b by simp
qed

theorem framing_round_trip_witness:
  "make_command_payload 0x8003 [1, 2, 3] = Inr [7, 0, 3, 128, 1, 2, 3]
     \<and> decode_header [7, 0, 3, 128, 1, 2, 3] = (7, 0x8003, [1, 2, 3])"
  using framing_round_trip [of "0x8003" "[1, 2, 3]"]
  by (simp add: make_command_payload_def to_bytes_little_def le_bytes_2 decode_header_def)

text \<open>
  Claim C1, as the code has it. A payload of more than 65531 bytes makes
  \<open>make_command_payload\<close> fail, whatever the opcode: the two-byte conversion of the total
  length raises Python's OverflowError, so no truncated or wrapped length is ever
  written. \<open>make_png_command\<close>, which writes the same header itself, fails with the same
  OverflowError when its payload (11 bytes and the image) is longer than 65531 bytes and
  the buffer number is a byte.
\<close>

theorem oversize_payload_overflow:
  "(65531 < length payload \<longrightarrow> make_command_payload opcode payload = Inl OverflowError)
   \<and> (65531 < length png_data + 11 \<and> 0 \<le> b \<and> b \<le> 255 \<longrightarrow>
        make_png_command png_data b = Inl OverflowError)"
proof (intro conjI impI)
  assume "65531 < length payload"
  then have "(256::int) ^ 2 \<le> int (length payload) + 4" by simp
  then have "to_bytes_little (int (length payload) + 4) 2 = Inl OverflowError"
    by (rule to_bytes_little_overflow)
  then show "make_command_payload opcode payload = Inl OverflowError"
    unfolding make_command_payload_def Let_def by simp
next
  assume h: "65531 < length png_data + 11 \<and> 0 \<le> b \<and> b \<le> 255"
  show "make_png_command png_data b = Inl OverflowError"
  proof (cases "length png_data < 2 ^ 32")
    case True
    then show ?thesis using h by (simp add: make_png_command_unfold)
  next
    case False
    then show ?thesis by (intro make_png_command_huge) simp
  qed
qed

theorem oversize_payload_overflow_witness:
  "make_command_payload 0x0107 (replicate 65532 0) = Inl OverflowError
     \<and> make_png_command (replicate 65521 0) 1 = Inl OverflowError"
  using oversize_payload_overflow [of "replicate 65532 0" "0x0107" "replicate 65521 0" 1]
  by simp

text \<open>
  Claim C1 as stated fails: at a payload of 65532 bytes the exception raised is not an
  EncodingError.
\<close>

theorem oversize_payload_not_EncodingError:
  "make_command_payload 0x0107 (replicate 65532 0) \<noteq> Inl EncodingError"
  by (simp add: make_command_payload_def to_bytes_little_def)

text \<open>
  Claim C6. For an image whose size fits the 32-bit size field and a buffer number that is
  a byte, \<open>make_png_command\<close> is the frame of opcode 0x0002 around the payload
  0x00, size (4 bytes, little-endian), CRC-32 of the image bytes alone (4 bytes,
  little-endian), 0x00, buffer number, image bytes; for an image of at most 65520 bytes
  that frame is returned, with the length field 15 more than the image size. For the
  empty image the size field and the CRC field are both 0.
\<close>

theorem png_command_layout:
  fixes buf :: byte
  assumes "length image_bytes < 2 ^ 32"
  shows "make_png_command image_bytes (uint buf) = make_command_payload 0x0002 (png_payload_layout image_bytes buf)
       \<and> (length image_bytes \<le> 65520 \<longrightarrow>
            make_png_command image_bytes (uint buf) =
              Inr (le_bytes 2 (int (length image_bytes) + 15) @ [0x02, 0x00] @ png_payload_layout image_bytes buf))
       \<and> make_png_command [] (uint buf) = Inr [15, 0, 2, 0,  0,  0, 0, 0, 0,  0, 0, 0, 0,  0, buf]"
proof -
  have m: "0 \<le> uint buf \<and> uint buf < 256" using uint_bounded [of buf] by simp
  have l: "int (length (png_payload_layout image_bytes buf)) = int (length image_bytes) + 11"
    by (simp add: png_payload_layout_def length_le_bytes)
  have f: "make_command_payload 0x0002 (png_payload_layout image_bytes buf) =
       (if int (length image_bytes) + 15 < 65536
        then Inr (le_bytes 2 (int (length image_bytes) + 15) @ [2, 0] @ png_payload_layout image_bytes buf)
        else Inl OverflowError)"
    unfolding make_command_payload_def Let_def l
    by (simp add: to_bytes_little_def le_bytes_2_2 add.commute [of "int (length image_bytes)" 15])
  have p: "make_png_command image_bytes (uint buf) =
       (if int (length image_bytes) + 15 < 65536
        then Inr (le_bytes 2 (int (length image_bytes) + 15) @ [2, 0] @ png_payload_layout image_bytes buf)
        else Inl OverflowError)"
    using m assms by (simp add: make_png_command_unfold png_payload_layout_def)
  have e: "make_png_command [] (uint buf) = Inr [15, 0, 2, 0,  0,  0, 0, 0, 0,  0, 0, 0, 0,  0, buf]"
    using m by (simp add: make_png_command_unfold le_bytes_2 le_bytes_4 crc32_empty)
  show ?thesis using f p e by simp
qed

theorem png_command_layout_witness:
  "make_png_command [0x89, 0x50] 1 = make_command_payload 0x0002 (png_payload_layout [0x89, 0x50] 1)
     \<and> make_png_command [0x89, 0x50] 1 =
         Inr ([17, 0] @ [2, 0] @ png_payload_layout [0x89, 0x50] 1)
     \<and> make_png_command [] 1 = Inr [15, 0, 2, 0,  0,  0, 0, 0, 0,  0, 0, 0, 0,  0, 1]"
  using png_command_layout [of "[0x89, 0x50]" 1]
  by (simp add: make_command_payload_def to_bytes_little_def png_payload_layout_def le_bytes_2
      length_le_bytes)

text \<open>
  Claim C7, as the code has it. \<open>make_diy_mode_command\<close> has no check of its own, but
  the \<^verbatim>\<open>bytes\<close> constructor it calls accepts only values from 0 to 255: for such a
  mode the result is 5, 0, 4, 1, mode; for any other integer the call raises ValueError.
  With the default argument the result is 5, 0, 4, 1, 1.
\<close>

theorem diy_mode_byte_range:
  "make_diy_mode_command mode =
     (if 0 \<le> mode \<and> mode \<le> 255 then Inr [5, 0, 4, 1, word_of_int mode] else Inl ValueError)
   \<and> make_diy_mode_command_default = Inr [5, 0, 4, 1, 1]"
  by (simp add: make_diy_mode_command_def make_diy_mode_command_default_def)

text \<open>
  Claim C7 as stated fails: the integer mode 256 does not give a command, the call raises
  ValueError.
\<close>

theorem diy_mode_256_raises: "make_diy_mode_command 256 = Inl ValueError"
  by (simp add: make_diy_mode_command_def)

text \<open>
  Claim C10. \<open>make_png_command\<close> returns a command only for a buffer number from 0 to
  255, and then byte 14 of the command is the buffer number; for a buffer number outside
  0 to 255 the append raises ValueError and nothing is returned (the image being short
  enough for its 4-byte size field, which is written first); for a buffer number from 0
  to 255 and an image of at most 65520 bytes a command is returned.
\<close>

theorem png_buffer_number_byte:
  "(make_png_command png b = Inr out \<longrightarrow> 0 \<le> b \<and> b \<le> 255 \<and> out ! 14 = word_of_int b)
   \<and> ((b < 0 \<or> 255 < b) \<and> length png < 2 ^ 32 \<longrightarrow> make_png_command png b = Inl ValueError)
   \<and> (0 \<le> b \<and> b \<le> 255 \<and> length png \<le> 65520 \<longrightarrow>
        (\<exists>res. make_png_command png b = Inr res \<and> res ! 14 = word_of_int b))"
proof (intro conjI impI)
  assume r: "make_png_command png b = Inr out"
  have s: "length png < 2 ^ 32"
  proof (rule ccontr)
    assume "\<not> length png < 2 ^ 32"
    then have "make_png_command png b = Inl OverflowError"
      by (intro make_png_command_huge) simp
    with r show False by simp
  qed
  from r show "0 \<le> b" by (simp add: make_png_command_unfold [OF s] split: if_splits)
  from r show "b \<le> 255" by (simp add: make_png_command_unfold [OF s] split: if_splits)
  from r have "out = le_bytes 2 (int (length png) + 15) @ [2, 0] @
                      [0] @ le_bytes 4 (int (length png)) @ le_bytes 4 (crc32 png) @ [0] @ [word_of_int b] @ png"
    by (simp add: make_png_command_unfold [OF s] split: if_splits)
  then show "out ! 14 = word_of_int b"
    by (simp add: le_bytes_2 le_bytes_4)
next
  assume "(b < 0 \<or> 255 < b) \<and> length png < 2 ^ 32"
  then show "make_png_command png b = Inl ValueError"
    by (auto simp add: make_png_command_unfold)
next
  assume h: "0 \<le> b \<and> b \<le> 255 \<and> length png \<le> 65520"
  then have s: "length png < 2 ^ 32" by simp
  show "\<exists>res. make_png_command png b = Inr res \<and> res ! 14 = word_of_int b"
    using h by (simp add: make_png_command_unfold [OF s] le_bytes_2 le_bytes_4)
qed

theorem png_buffer_number_byte_witness:
  "make_png_command [7, 7] 256 = Inl ValueError
   \<and> make_png_command [7, 7] (-1) = Inl ValueError
   \<and> (\<exists>res. make_png_command [7, 7] 3 = Inr res \<and> res ! 14 = 3)"
  using png_buffer_number_byte [of "[7, 7]" 256] png_buffer_number_byte [of "[7, 7]" "-1"]
    png_buffer_number_byte [of "[7, 7]" 3]
  by simp

section \<open>Properties of the text renderer\<close>

lemma not_raises_iff: "\<not> raises r \<longleftrightarrow> (\<exists>v. r = Inr v)"
  by (cases r) (simp_all add: raises_def)

lemma set_range_down: "set (range_down start stop) = {s. stop < s \<and> s \<le> start}"
proof (induction start stop rule: range_down.induct)
  case (1 start stop)
  show ?case
  proof (cases "stop < start")
    case True
    then have "set (range_down start stop) = insert start (set (range_down (start - 1) stop))"
      by (subst range_down.simps) simp
    also have "\<dots> = insert start {s. stop < s \<and> s \<le> start - 1}"
      using True by (simp add: "1.IH")
    also have "\<dots> = {s. stop < s \<and> s \<le> start}"
      using True by auto
    finally show ?thesis .
  next
    case False
    then have "range_down start stop = []"
      by (subst range_down.simps) simp
    then show ?thesis using False by auto
  qed
qed

lemma range_down_empty: "start \<le> stop \<Longrightarrow> range_down start stop = []"
  by (subst range_down.simps) simp

lemma range_down_8_4: "range_down 8 4 = [8, 7, 6, 5]"
  by (simp add: range_down.simps)

lemma get_font_path_pixel: "get_font_path (demo_pil loads limit) ''pixel'' = Some ''pixel.ttf''"
  by (simp add: get_font_path_def demo_pil_def endswith_def lower_def lower_char_def)

lemma custom_font_demo:
  "custom_font (demo_pil loads limit) (Some ''pixel'') sz =
     (if loads sz then Some (Sized ''pixel.ttf'' sz) else None)"
  by (simp add: custom_font_def truthy_def get_font_path_pixel) (simp add: demo_pil_def)

lemma custom_font_None: "custom_font env None sz = None"
  by (simp add: custom_font_def truthy_def)

text \<open>
  Claim C2, where the code departs from it. The candidate sizes of the auto-fit search are
  \<^verbatim>\<open>range(min(max_height, max_width), MIN_FONT_SIZE, -1)\<close>, which stops before
  \<open>MIN_FONT_SIZE = 4\<close>: size 4 is never a candidate. On a canvas 8 wide and 4 high
  there is no candidate at all, and the text \<^verbatim>\<open>AB\<close>, which fits at size 4 of the named
  font (4 wide, 4 high), gets the built-in font.
\<close>

theorem auto_fit_skips_floor_size:
  "MIN_FONT_SIZE \<notin> set (range_down (min max_height max_width) MIN_FONT_SIZE)
   \<and> range_down (min 4 8) MIN_FONT_SIZE = []
   \<and> try_size scalable_pil [] [''AB''] 8 4 (Some ''pixel'') 4 = Some (Sized ''pixel.ttf'' 4)
   \<and> get_optimal_font scalable_pil [] [''AB''] 8 4 (Some ''pixel'') = Inr Builtin"
proof -
  have a: "MIN_FONT_SIZE \<notin> set (range_down (min max_height max_width) MIN_FONT_SIZE)"
    by (simp add: set_range_down)
  have b: "range_down (min 4 8) MIN_FONT_SIZE = []"
    by (simp add: MIN_FONT_SIZE_def range_down_empty)
  have c: "try_size scalable_pil [] [''AB''] 8 4 (Some ''pixel'') 4 = Some (Sized ''pixel.ttf'' 4)"
    unfolding scalable_pil_def try_size_def font_for_size_def custom_font_demo
    by (simp add: demo_pil_def demo_bbox_def)
  have d: "get_optimal_font scalable_pil [] [''AB''] 8 4 (Some ''pixel'') = Inr Builtin"
    unfolding get_optimal_font_def b
    by (simp add: scalable_pil_def demo_pil_def)
  show ?thesis using a b c d by simp
qed

text \<open>
  Claim C9 as stated fails: with a font file that opens at size 8 only, the smaller sizes
  are measured with the built-in font, and the text \<^verbatim>\<open>HI\<close> on an 8 by 8 canvas is
  accepted at size 8 and rejected at size 7, both candidates of the search.
\<close>

theorem strike_font_fits_at_8_not_at_7:
  "try_size strike_pil [] [''HI''] 8 8 (Some ''pixel'') 8 = Some (Sized ''pixel.ttf'' 8)
   \<and> try_size strike_pil [] [''HI''] 8 8 (Some ''pixel'') 7 = None
   \<and> range_down (min 8 8) MIN_FONT_SIZE = [8, 7, 6, 5]"
proof -
  have a: "try_size strike_pil [] [''HI''] 8 8 (Some ''pixel'') 8 = Some (Sized ''pixel.ttf'' 8)"
    unfolding strike_pil_def try_size_def font_for_size_def custom_font_demo
    by (simp add: demo_pil_def demo_bbox_def)
  have b: "try_size strike_pil [] [''HI''] 8 8 (Some ''pixel'') 7 = None"
    unfolding strike_pil_def try_size_def font_for_size_def custom_font_demo
    by (simp add: demo_pil_def demo_bbox_def)
  have c: "range_down (min 8 8) MIN_FONT_SIZE = [8, 7, 6, 5]"
    by (simp add: MIN_FONT_SIZE_def range_down_8_4)
  show ?thesis using a b c by simp
qed

lemma check_lines_within:
  assumes "check_lines env draw f max_width lines t = Inr (True, T)"
    and "\<forall>l\<in>set lines. measures_within env draw g f l"
  shows "\<exists>T'. check_lines env draw g max_width lines t' = Inr (True, T') \<and> T' - t' \<le> T - t"
  using assms
proof (induction lines arbitrary: t t')
  case Nil
  then show ?case by simp
next
  case (Cons l ls)
  from Cons.prems(2) have m: "measures_within env draw g f l" by simp
  then obtain bg bf where g: "textbbox env draw g l = Inr bg" and f: "textbbox env draw f l = Inr bf"
    and w: "bbox_width bg \<le> bbox_width bf" and h: "bbox_height bg \<le> bbox_height bf"
    by (auto simp: measures_within_def split: sum.splits)
  obtain x0 y0 x1 y1 where bf: "bf = (x0, y0, x1, y1)" by (cases bf) auto
  obtain a0 b0 a1 b1 where bg: "bg = (a0, b0, a1, b1)" by (cases bg) auto
  from Cons.prems(1) f bf have fw: "\<not> max_width < x1 - x0"
    and rest: "check_lines env draw f max_width ls (t + (y1 - y0)) = Inr (True, T)"
    by (auto simp: Let_def split: if_splits)
  from Cons.prems(2) have "\<forall>l\<in>set ls. measures_within env draw g f l" by simp
  from Cons.IH [OF rest this, of "t' + (b1 - b0)"]
  obtain T' where r: "check_lines env draw g max_width ls (t' + (b1 - b0)) = Inr (True, T')"
    and d: "T' - (t' + (b1 - b0)) \<le> T - (t + (y1 - y0))" by blast
  from w bf bg fw have gw: "\<not> max_width < a1 - a0" by (simp add: bbox_width_def)
  from h bf bg d have "T' - t' \<le> T - t" by (simp add: bbox_height_def)
  with g bg gw r show ?case by (simp add: Let_def)
qed

text \<open>
  Claim C9, under the condition on the fonts that it needs. For a fixed text and canvas,
  if the fit test accepts size \<open>s\<close> with font \<open>f\<close>, and at another size \<open>s'\<close> a font
  \<open>g\<close> is loaded that measures every line no wider and no taller than \<open>f\<close> does, then
  the fit test accepts \<open>s'\<close> too. With fonts that do not grow as the size shrinks, the
  sizes that fit are therefore closed downward.
\<close>

theorem fit_monotone_when_metrics_shrink:
  assumes "try_size env draw lines max_width max_height font_name s = Some f"
    and "font_for_size env font_name s' = Inr g"
    and "\<forall>l\<in>set lines. measures_within env draw g f l"
  shows "try_size env draw lines max_width max_height font_name s' = Some g"
proof -
  from assms(1) obtain T where c: "check_lines env draw f max_width lines 0 = Inr (True, T)"
    and T: "\<not> max_height < T"
    by (auto simp: try_size_def Let_def split: sum.splits if_splits)
  from check_lines_within [OF c assms(3), of 0]
  obtain T' where c': "check_lines env draw g max_width lines 0 = Inr (True, T')" and "T' \<le> T"
    by auto
  with T have "\<not> max_height < T'" by simp
  with c' assms(2) show ?thesis by (simp add: try_size_def)
qed

theorem fit_monotone_when_metrics_shrink_witness:
  "try_size scalable_pil [] [''HI''] 8 8 (Some ''pixel'') 8 = Some (Sized ''pixel.ttf'' 8)
   \<and> try_size scalable_pil [] [''HI''] 8 8 (Some ''pixel'') 6 = Some (Sized ''pixel.ttf'' 6)"
proof -
  have a: "try_size scalable_pil [] [''HI''] 8 8 (Some ''pixel'') 8 = Some (Sized ''pixel.ttf'' 8)"
    unfolding scalable_pil_def try_size_def font_for_size_def custom_font_demo
    by (simp add: demo_pil_def demo_bbox_def)
  have b: "font_for_size scalable_pil (Some ''pixel'') 6 = Inr (Sized ''pixel.ttf'' 6)"
    unfolding scalable_pil_def font_for_size_def custom_font_demo by simp
  have c: "\<forall>l\<in>set [''HI'']. measures_within scalable_pil [] (Sized ''pixel.ttf'' 6) (Sized ''pixel.ttf'' 8) l"
    by (simp add: measures_within_def scalable_pil_def demo_pil_def demo_bbox_def
        bbox_width_def bbox_height_def)
  show ?thesis using a fit_monotone_when_metrics_shrink [OF a b c] by simp
qed

lemma custom_font_unavailable:
  "font_unavailable env font_name sz \<Longrightarrow> custom_font env font_name sz = None"
  by (auto simp: font_unavailable_def custom_font_def truthy_def raises_def
      split: option.splits sum.splits)

lemma get_fixed_font_eq:
  "get_fixed_font env sz font_name = font_for_size env font_name sz"
  by (simp add: get_fixed_font_def font_for_size_def split: option.splits sum.splits)

lemma font_for_size_fallback:
  "font_unavailable env font_name sz \<Longrightarrow> font_for_size env font_name sz = load_default env"
  by (simp add: font_for_size_def custom_font_unavailable)

lemma font_for_size_ok:
  "\<not> raises (load_default env) \<Longrightarrow> \<not> raises (font_for_size env font_name sz)"
  by (simp add: font_for_size_def raises_def split: option.splits)

lemma font_for_size_Inl:
  "font_for_size env font_name sz = Inl e \<Longrightarrow> load_default env = Inl e"
  by (simp add: font_for_size_def split: option.splits)

lemma try_size_font:
  "try_size env draw lines max_width max_height font_name sz = Some f
     \<Longrightarrow> font_for_size env font_name sz = Inr f"
  by (auto simp: try_size_def Let_def split: sum.splits if_splits)

lemma search_sizes_ok:
  assumes "\<not> raises (load_default env)"
  shows "\<not> raises (search_sizes env draw lines max_width max_height font_name sizes)"
  using assms by (induction sizes) (simp_all add: raises_def split: option.splits)

lemma search_sizes_Inl:
  "search_sizes env draw lines max_width max_height font_name sizes = Inl e
     \<Longrightarrow> load_default env = Inl e"
  by (induction sizes) (simp_all split: option.splits)

lemma search_sizes_fallback:
  assumes "\<forall>sz. font_unavailable env font_name sz"
  shows "search_sizes env draw lines max_width max_height font_name sizes = load_default env"
proof (induction sizes)
  case Nil
  show ?case by simp
next
  case (Cons sz sizes)
  show ?case
  proof (cases "try_size env draw lines max_width max_height font_name sz")
    case None
    with Cons show ?thesis by simp
  next
    case (Some f)
    then have "font_for_size env font_name sz = Inr f" by (rule try_size_font)
    moreover have "font_for_size env font_name sz = load_default env"
      using assms by (intro font_for_size_fallback) simp
    ultimately show ?thesis using Some by simp
  qed
qed

lemma select_font_ok:
  "\<not> raises (load_default env)
     \<Longrightarrow> \<not> raises (select_font env draw lines width height font_size font)"
  by (cases font_size)
     (simp_all add: select_font_def get_fixed_font_eq font_for_size_ok get_optimal_font_def
        search_sizes_ok)

lemma select_font_Inl:
  "select_font env draw lines width height font_size font = Inl e \<Longrightarrow> load_default env = Inl e"
  by (cases font_size)
     (auto simp: select_font_def get_fixed_font_eq get_optimal_font_def
        dest: font_for_size_Inl search_sizes_Inl)

lemma measure_heights_ok:
  assumes "\<forall>l\<in>set ls. \<not> raises (textbbox env draw f l)"
  shows "\<exists>t' hs'. measure_heights env draw f ls t hs = Inr (t', hs')"
  using assms
proof (induction ls arbitrary: t hs)
  case Nil
  show ?case by simp
next
  case (Cons l ls)
  from Cons.prems have "\<not> raises (textbbox env draw f l)" by simp
  then obtain b where b: "textbbox env draw f l = Inr b"
    by (auto simp: not_raises_iff)
  obtain x0 y0 x1 y1 where "b = (x0, y0, x1, y1)" by (cases b) auto
  with b Cons.IH [of "t + (y1 - y0)" "hs @ [y1 - y0]"] Cons.prems
  show ?case by (auto simp: Let_def)
qed

lemma measure_heights_length:
  "measure_heights env draw f ls t hs = Inr (t', hs') \<Longrightarrow> length hs' = length hs + length ls"
proof (induction ls arbitrary: t hs)
  case Nil
  then show ?case by simp
next
  case (Cons l ls)
  from Cons.prems obtain x0 y0 x1 y1 where
    "measure_heights env draw f ls (t + (y1 - y0)) (hs @ [y1 - y0]) = Inr (t', hs')"
    by (auto simp: Let_def split: sum.splits)
  from Cons.IH [OF this] show ?case by simp
qed

lemma measure_heights_Inl:
  "measure_heights env draw f ls t hs = Inl e \<Longrightarrow> \<exists>l\<in>set ls. textbbox env draw f l = Inl e"
proof (induction ls arbitrary: t hs)
  case Nil
  then show ?case by simp
next
  case (Cons l ls)
  show ?case
  proof (cases "textbbox env draw f l")
    case (Inl e')
    with Cons.prems show ?thesis by simp
  next
    case (Inr b)
    obtain x0 y0 x1 y1 where "b = (x0, y0, x1, y1)" by (cases b) auto
    with Inr Cons.prems
    have "measure_heights env draw f ls (t + (y1 - y0)) (hs @ [y1 - y0]) = Inl e"
      by (simp add: Let_def)
    from Cons.IH [OF this] show ?thesis by auto
  qed
qed

lemma measure_heights_raises:
  assumes "\<exists>l\<in>set ls. raises (textbbox env draw f l)"
  shows "\<exists>e. (\<exists>l\<in>set ls. textbbox env draw f l = Inl e)
            \<and> measure_heights env draw f ls t hs = Inl e"
proof (cases "measure_heights env draw f ls t hs")
  case (Inl e)
  with measure_heights_Inl [OF Inl] show ?thesis by auto
next
  case (Inr r)
  have "\<forall>l\<in>set ls. \<not> raises (textbbox env draw f l)"
    using Inr
  proof (induction ls arbitrary: t hs)
    case Nil
    show ?case by simp
  next
    case (Cons l ls)
    from Cons.prems obtain b where b: "textbbox env draw f l = Inr b"
      by (auto split: sum.splits)
    obtain x0 y0 x1 y1 where bb: "b = (x0, y0, x1, y1)" by (cases b) auto
    with b Cons.prems
    have "measure_heights env draw f ls (t + (y1 - y0)) (hs @ [y1 - y0]) = Inr r"
      by (simp add: Let_def)
    from Cons.IH [OF this] b show ?case by (simp add: raises_def)
  qed
  with assms show ?thesis by blast
qed

lemma draw_call_fill:
  "(if \<not> antialias then draw_text env draw xy line f (Index 1)
    else draw_text env draw xy line f (RGB 255 255 255))
   = draw_text env draw xy line f (text_fill antialias)"
  by (simp add: text_fill_def)

lemma draw_lines_ok:
  assumes "\<forall>img. \<forall>l\<in>set ls. \<not> raises (textbbox env img f l)"
    and "\<forall>img xy. \<forall>l\<in>set ls. \<not> raises (draw_text env img xy l f (text_fill antialias))"
    and "i + length ls \<le> length hs"
  shows "\<not> raises (draw_lines env f width antialias hs img y i ls)"
  using assms
proof (induction ls arbitrary: img y i)
  case Nil
  show ?case by (simp add: raises_def)
next
  case (Cons l ls)
  from Cons.prems(1) have "\<not> raises (textbbox env img f l)" by simp
  then obtain b where b: "textbbox env img f l = Inr b"
    by (auto simp: not_raises_iff)
  obtain x0 y0 x1 y1 where bb: "b = (x0, y0, x1, y1)" by (cases b) auto
  let ?xy = "((width - (x1 - x0)) div 2, y)"
  from Cons.prems(2) have "\<not> raises (draw_text env img ?xy l f (text_fill antialias))" by simp
  then obtain img' where d: "draw_text env img ?xy l f (text_fill antialias) = Inr img'"
    by (auto simp: not_raises_iff)
  from Cons.prems(3) have i: "i < length hs" and i': "Suc i + length ls \<le> length hs" by simp_all
  have "\<not> raises (draw_lines env f width antialias hs img' (y + hs ! i) (Suc i) ls)"
    using Cons.prems(1,2) i' by (intro Cons.IH) simp_all
  with b bb d i show ?case by (simp add: Let_def draw_call_fill)
qed

lemma draw_lines_Inl:
  assumes "draw_lines env f width antialias hs img y i ls = Inl e"
    and "i + length ls \<le> length hs"
  shows "(\<exists>im l. textbbox env im f l = Inl e)
       \<or> (\<exists>im xy l c. draw_text env im xy l f c = Inl e)"
  using assms
proof (induction ls arbitrary: img y i)
  case Nil
  then show ?case by simp
next
  case (Cons l ls)
  show ?case
  proof (cases "textbbox env img f l")
    case (Inl e')
    with Cons.prems(1) have "textbbox env img f l = Inl e" by simp
    then show ?thesis by blast
  next
    case (Inr b)
    obtain x0 y0 x1 y1 where bb: "b = (x0, y0, x1, y1)" by (cases b) auto
    let ?xy = "((width - (x1 - x0)) div 2, y)"
    show ?thesis
    proof (cases "draw_text env img ?xy l f (text_fill antialias)")
      case (Inl e')
      with Inr bb Cons.prems(1) have "draw_text env img ?xy l f (text_fill antialias) = Inl e"
        by (simp add: Let_def draw_call_fill)
      then show ?thesis by blast
    next
      case d: (Inr img')
      from Cons.prems(2) have i: "i < length hs" and i': "Suc i + length ls \<le> length hs"
        by simp_all
      from Inr bb d i Cons.prems(1)
      have "draw_lines env f width antialias hs img' (y + hs ! i) (Suc i) ls = Inl e"
        by (simp add: Let_def draw_call_fill)
      from Cons.IH [OF this i'] show ?thesis .
    qed
  qed
qed

text \<open>The rendering, stage by stage.\<close>

lemma render_unfold:
  "render_text_to_png env text width height antialias font_size font =
     (case new_canvas env width height antialias of
        Inl e \<Rightarrow> Inl e
      | Inr img \<Rightarrow>
          (case select_font env img (text_lines text) width height font_size font of
             Inl e \<Rightarrow> Inl e
           | Inr font_obj \<Rightarrow>
               (case measure_heights env img font_obj (text_lines text) 0 [] of
                  Inl e \<Rightarrow> Inl e
                | Inr (total_height, line_heights) \<Rightarrow>
                    (case draw_lines env font_obj width antialias line_heights img
                            ((height - total_height) div 2) 0 (text_lines text) of
                       Inl e \<Rightarrow> Inl e
                     | Inr img \<Rightarrow>
                         (if \<not> antialias
                          then (case image_new env Mode_RGB (width, height) (RGB 0 0 0) of
                                  Inl e \<Rightarrow> Inl e
                                | Inr rgb_img \<Rightarrow>
                                    (case point_255 env img of
                                       Inl e \<Rightarrow> Inl e
                                     | Inr pointed \<Rightarrow>
                                         (case paste env rgb_img pointed (0, 0) of
                                            Inl e \<Rightarrow> Inl e
                                          | Inr rgb_img \<Rightarrow> save_png env rgb_img)))
                          else save_png env img)))))"
  unfolding render_text_to_png_def new_canvas_def select_font_def Let_def
  by (cases antialias) simp_all

lemma render_succeeds:
  assumes canvas: "new_canvas env width height antialias = Inr img"
    and font: "select_font env img (text_lines text) width height font_size font = Inr f"
    and bbox: "\<forall>i. \<forall>l\<in>set (text_lines text). \<not> raises (textbbox env i f l)"
    and draw: "\<forall>i xy. \<forall>l\<in>set (text_lines text).
                 \<not> raises (draw_text env i xy l f (text_fill antialias))"
    and conv: "\<not> antialias \<longrightarrow>
                 \<not> raises (image_new env Mode_RGB (width, height) (RGB 0 0 0))
                 \<and> (\<forall>i. \<not> raises (point_255 env i))
                 \<and> (\<forall>base i. \<not> raises (paste env base i (0, 0)))"
    and save: "\<forall>i. \<not> raises (save_png env i)"
  shows "\<exists>out png. save_png env out = Inr png
           \<and> render_text_to_png env text width height antialias font_size font = Inr png"
proof -
  let ?ls = "text_lines text"
  from bbox have "\<forall>l\<in>set ?ls. \<not> raises (textbbox env img f l)" by simp
  from measure_heights_ok [OF this, of 0 "[]"]
  obtain t hs where mh: "measure_heights env img f ?ls 0 [] = Inr (t, hs)" by auto
  from measure_heights_length [OF mh] have len: "length hs = length ?ls" by simp
  have "\<not> raises (draw_lines env f width antialias hs img ((height - t) div 2) 0 ?ls)"
    using bbox draw len by (intro draw_lines_ok) simp_all
  then obtain img' where
    dl: "draw_lines env f width antialias hs img ((height - t) div 2) 0 ?ls = Inr img'"
    by (auto simp: not_raises_iff)
  show ?thesis
  proof (cases antialias)
    case True
    from save have "\<not> raises (save_png env img')" by simp
    then obtain png where "save_png env img' = Inr png" by (auto simp: not_raises_iff)
    with True canvas font mh dl show ?thesis by (auto simp: render_unfold)
  next
    case False
    with conv have "\<not> raises (image_new env Mode_RGB (width, height) (RGB 0 0 0))" by simp
    then obtain rgb where rgb: "image_new env Mode_RGB (width, height) (RGB 0 0 0) = Inr rgb"
      by (auto simp: not_raises_iff)
    from False conv have "\<not> raises (point_255 env img')" by simp
    then obtain pt where pt: "point_255 env img' = Inr pt" by (auto simp: not_raises_iff)
    from False conv have "\<not> raises (paste env rgb pt (0, 0))" by simp
    then obtain ps where ps: "paste env rgb pt (0, 0) = Inr ps" by (auto simp: not_raises_iff)
    from save have "\<not> raises (save_png env ps)" by simp
    then obtain png where "save_png env ps = Inr png" by (auto simp: not_raises_iff)
    with False canvas font mh dl rgb pt ps show ?thesis by (auto simp: render_unfold)
  qed
qed

lemma render_error_origin:
  assumes "render_text_to_png env text width height antialias font_size font = Inl e"
  shows "(\<exists>m c. image_new env m (width, height) c = Inl e)
       \<or> load_default env = Inl e
       \<or> (\<exists>i f l. textbbox env i f l = Inl e)
       \<or> (\<exists>i xy l f c. draw_text env i xy l f c = Inl e)
       \<or> (\<exists>i. point_255 env i = Inl e)
       \<or> (\<exists>base i xy. paste env base i xy = Inl e)
       \<or> (\<exists>i. save_png env i = Inl e)"
proof (cases "new_canvas env width height antialias")
  case (Inl e')
  with assms have "new_canvas env width height antialias = Inl e" by (simp add: render_unfold)
  then have "\<exists>m c. image_new env m (width, height) c = Inl e"
    by (auto simp: new_canvas_def split: if_splits)
  then show ?thesis by blast
next
  case canvas: (Inr img)
  let ?ls = "text_lines text"
  show ?thesis
  proof (cases "select_font env img ?ls width height font_size font")
    case (Inl e')
    with canvas assms have "select_font env img ?ls width height font_size font = Inl e"
      by (simp add: render_unfold)
    then have "load_default env = Inl e" by (rule select_font_Inl)
    then show ?thesis by blast
  next
    case font: (Inr f)
    show ?thesis
    proof (cases "measure_heights env img f ?ls 0 []")
      case (Inl e')
      with canvas font assms have "measure_heights env img f ?ls 0 [] = Inl e"
        by (simp add: render_unfold)
      from measure_heights_Inl [OF this] have "\<exists>i f l. textbbox env i f l = Inl e" by blast
      then show ?thesis by blast
    next
      case (Inr r)
      obtain t hs where r: "r = (t, hs)" by (cases r) auto
      with Inr have mh: "measure_heights env img f ?ls 0 [] = Inr (t, hs)" by simp
      from measure_heights_length [OF mh] have len: "0 + length ?ls \<le> length hs" by simp
      show ?thesis
      proof (cases "draw_lines env f width antialias hs img ((height - t) div 2) 0 ?ls")
        case (Inl e')
        with canvas font mh assms
        have "draw_lines env f width antialias hs img ((height - t) div 2) 0 ?ls = Inl e"
          by (simp add: render_unfold)
        from draw_lines_Inl [OF this len] show ?thesis by blast
      next
        case dl: (Inr img')
        show ?thesis
        proof (cases antialias)
          case True
          with canvas font mh dl assms have "save_png env img' = Inl e"
            by (simp add: render_unfold)
          then show ?thesis by blast
        next
          case False
          show ?thesis
          proof (cases "image_new env Mode_RGB (width, height) (RGB 0 0 0)")
            case (Inl e')
            with False canvas font mh dl assms
            have "image_new env Mode_RGB (width, height) (RGB 0 0 0) = Inl e"
              by (simp add: render_unfold)
            then show ?thesis by blast
          next
            case rgb: (Inr rgb)
            show ?thesis
            proof (cases "point_255 env img'")
              case (Inl e')
              with False canvas font mh dl rgb assms have "point_255 env img' = Inl e"
                by (simp add: render_unfold)
              then show ?thesis by blast
            next
              case pt: (Inr pt)
              show ?thesis
              proof (cases "paste env rgb pt (0, 0)")
                case (Inl e')
                with False canvas font mh dl rgb pt assms have "paste env rgb pt (0, 0) = Inl e"
                  by (simp add: render_unfold)
                then show ?thesis by blast
              next
                case ps: (Inr ps)
                with False canvas font mh dl rgb pt assms have "save_png env ps = Inl e"
                  by (simp add: render_unfold)
                then show ?thesis by blast
              qed
            qed
          qed
        qed
      qed
    qed
  qed
qed

lemma render_measure_propagates:
  assumes canvas: "new_canvas env width height antialias = Inr img"
    and font: "select_font env img (text_lines text) width height font_size font = Inr f"
    and bad: "\<exists>l\<in>set (text_lines text). raises (textbbox env img f l)"
  shows "\<exists>e. (\<exists>l\<in>set (text_lines text). textbbox env img f l = Inl e)
           \<and> render_text_to_png env text width height antialias font_size font = Inl e"
proof -
  from measure_heights_raises [OF bad, of 0 "[]"]
  obtain e where "\<exists>l\<in>set (text_lines text). textbbox env img f l = Inl e"
    and "measure_heights env img f (text_lines text) 0 [] = Inl e" by blast
  with canvas font show ?thesis by (auto simp: render_unfold)
qed

text \<open>
  Claim C8, as the code has it. When the named font is unavailable at a size (no name is
  given, the file is not found, or \<^verbatim>\<open>ImageFont.truetype\<close> raises), \<open>get_fixed_font\<close>
  returns what \<^verbatim>\<open>ImageFont.load_default\<close> returns; when it is unavailable at every size,
  so does \<open>get_optimal_font\<close>; and the font selection raises only if
  \<^verbatim>\<open>load_default\<close> does. \<open>render_text_to_png\<close> returns PNG bytes, and they are the
  bytes that saving an image produced, whenever the canvas is created, a font is selected,
  and measuring and drawing the lines of the text with that font, the conversion to RGB
  (without antialiasing) and the saving do not raise. Every exception that leaves
  \<open>render_text_to_png\<close> was raised by \<^verbatim>\<open>Image.new\<close>, \<^verbatim>\<open>load_default\<close>, \<^verbatim>\<open>textbbox\<close>,
  \<^verbatim>\<open>text\<close>, \<^verbatim>\<open>point\<close>, \<^verbatim>\<open>paste\<close> or \<^verbatim>\<open>save\<close>; and an exception from creating
  the canvas, from selecting the font, or from measuring a line with the selected font
  leaves the call unchanged.
\<close>

theorem render_failure_semantics:
  "(font_unavailable env font sz \<longrightarrow> get_fixed_font env sz font = load_default env)
   \<and> ((\<forall>s. font_unavailable env font s) \<longrightarrow>
          get_optimal_font env draw ls width height font = load_default env)
   \<and> (\<not> raises (load_default env) \<longrightarrow>
          \<not> raises (select_font env draw ls width height font_size font))
   \<and> (new_canvas env width height antialias = Inr img
        \<and> select_font env img (text_lines text) width height font_size font = Inr f
        \<and> (\<forall>i. \<forall>l\<in>set (text_lines text). \<not> raises (textbbox env i f l))
        \<and> (\<forall>i xy. \<forall>l\<in>set (text_lines text).
              \<not> raises (draw_text env i xy l f (text_fill antialias)))
        \<and> (\<not> antialias \<longrightarrow>
              \<not> raises (image_new env Mode_RGB (width, height) (RGB 0 0 0))
              \<and> (\<forall>i. \<not> raises (point_255 env i))
              \<and> (\<forall>base i. \<not> raises (paste env base i (0, 0))))
        \<and> (\<forall>i. \<not> raises (save_png env i))
        \<longrightarrow> (\<exists>out png. save_png env out = Inr png
              \<and> render_text_to_png env text width height antialias font_size font = Inr png))
   \<and> (render_text_to_png env text width height antialias font_size font = Inl e \<longrightarrow>
          (\<exists>m c. image_new env m (width, height) c = Inl e)
          \<or> load_default env = Inl e
          \<or> (\<exists>i g l. textbbox env i g l = Inl e)
          \<or> (\<exists>i xy l g c. draw_text env i xy l g c = Inl e)
          \<or> (\<exists>i. point_255 env i = Inl e)
          \<or> (\<exists>base i xy. paste env base i xy = Inl e)
          \<or> (\<exists>i. save_png env i = Inl e))
   \<and> (new_canvas env width height antialias = Inl e \<longrightarrow>
          render_text_to_png env text width height antialias font_size font = Inl e)
   \<and> (new_canvas env width height antialias = Inr img
        \<and> select_font env img (text_lines text) width height font_size font = Inl e \<longrightarrow>
          render_text_to_png env text width height antialias font_size font = Inl e)
   \<and> (new_canvas env width height antialias = Inr img
        \<and> select_font env img (text_lines text) width height font_size font = Inr f
        \<and> (\<exists>l\<in>set (text_lines text). raises (textbbox env img f l)) \<longrightarrow>
          (\<exists>x. (\<exists>l\<in>set (text_lines text). textbbox env img f l = Inl x)
             \<and> render_text_to_png env text width height antialias font_size font = Inl x))"
proof (intro conjI impI)
  assume "font_unavailable env font sz"
  then show "get_fixed_font env sz font = load_default env"
    by (simp add: get_fixed_font_eq font_for_size_fallback)
next
  assume "\<forall>s. font_unavailable env font s"
  then show "get_optimal_font env draw ls width height font = load_default env"
    unfolding get_optimal_font_def by (rule search_sizes_fallback)
next
  assume "\<not> raises (load_default env)"
  then show "\<not> raises (select_font env draw ls width height font_size font)"
    by (rule select_font_ok)
next
  assume h: "new_canvas env width height antialias = Inr img
        \<and> select_font env img (text_lines text) width height font_size font = Inr f
        \<and> (\<forall>i. \<forall>l\<in>set (text_lines text). \<not> raises (textbbox env i f l))
        \<and> (\<forall>i xy. \<forall>l\<in>set (text_lines text).
              \<not> raises (draw_text env i xy l f (text_fill antialias)))
        \<and> (\<not> antialias \<longrightarrow>
              \<not> raises (image_new env Mode_RGB (width, height) (RGB 0 0 0))
              \<and> (\<forall>i. \<not> raises (point_255 env i))
              \<and> (\<forall>base i. \<not> raises (paste env base i (0, 0))))
        \<and> (\<forall>i. \<not> raises (save_png env i))"
  show "\<exists>out png. save_png env out = Inr png
          \<and> render_text_to_png env text width height antialias font_size font = Inr png"
    using h by (intro render_succeeds [where img = img and f = f]) blast+
next
  assume "render_text_to_png env text width height antialias font_size font = Inl e"
  from render_error_origin [OF this]
  show "(\<exists>m c. image_new env m (width, height) c = Inl e)
          \<or> load_default env = Inl e
          \<or> (\<exists>i g l. textbbox env i g l = Inl e)
          \<or> (\<exists>i xy l g c. draw_text env i xy l g c = Inl e)
          \<or> (\<exists>i. point_255 env i = Inl e)
          \<or> (\<exists>base i xy. paste env base i xy = Inl e)
          \<or> (\<exists>i. save_png env i = Inl e)" .
next
  assume "new_canvas env width height antialias = Inl e"
  then show "render_text_to_png env text width height antialias font_size font = Inl e"
    by (simp add: render_unfold)
next
  assume "new_canvas env width height antialias = Inr img
        \<and> select_font env img (text_lines text) width height font_size font = Inl e"
  then show "render_text_to_png env text width height antialias font_size font = Inl e"
    by (simp add: render_unfold)
next
  assume "new_canvas env width height antialias = Inr img
        \<and> select_font env img (text_lines text) width height font_size font = Inr f
        \<and> (\<exists>l\<in>set (text_lines text). raises (textbbox env img f l))"
  then show "\<exists>x. (\<exists>l\<in>set (text_lines text). textbbox env img f l = Inl x)
             \<and> render_text_to_png env text width height antialias font_size font = Inl x"
    by (intro render_measure_propagates) blast+
qed

lemma get_font_path_missing: "get_font_path (demo_pil loads limit) ''missing'' = None"
  by (simp add: get_font_path_def demo_pil_def endswith_def lower_def lower_char_def)

theorem render_failure_semantics_witness:
  "get_fixed_font scalable_pil 12 (Some ''missing'') = Inr Builtin
   \<and> get_optimal_font corrupt_pil [] [''HI''] 32 32 (Some ''pixel'') = Inr Builtin
   \<and> render_text_to_png corrupt_pil ''HI'' 32 32 False (Some 12) (Some ''pixel'')
       = Inr [0x89, 0x50, 0x4E, 0x47, 0x0D, 0x0A, 0x1A, 0x0A]
   \<and> render_text_to_png scalable_pil (replicate 1000001 (CHR ''B'')) 8 8 False (Some 6) None
       = Inl ValueError"
proof -
  let ?sig = "[0x89, 0x50, 0x4E, 0x47, 0x0D, 0x0A, 0x1A, 0x0A] :: byte list"
  let ?t = "replicate 1000001 (CHR ''B'')"
  have d1: "load_default scalable_pil = Inr Builtin" and d2: "load_default corrupt_pil = Inr Builtin"
    by (simp_all add: scalable_pil_def corrupt_pil_def demo_pil_def)
  \<comment> \<open>a missing font beside a good one\<close>
  have u1: "font_unavailable scalable_pil (Some ''missing'') 12"
    by (simp add: font_unavailable_def scalable_pil_def get_font_path_missing)
  have a: "get_fixed_font scalable_pil 12 (Some ''missing'') = Inr Builtin"
    using render_failure_semantics [where env = scalable_pil and font = "Some ''missing''" and sz = 12]
      u1 d1 by simp
  \<comment> \<open>a font file that does not open\<close>
  have u2: "font_unavailable corrupt_pil (Some ''pixel'') s" for s
    by (simp add: font_unavailable_def corrupt_pil_def get_font_path_pixel)
      (simp add: demo_pil_def raises_def)
  have b: "get_optimal_font corrupt_pil [] [''HI''] 32 32 (Some ''pixel'') = Inr Builtin"
    using render_failure_semantics [where env = corrupt_pil and font = "Some ''pixel''"
        and draw = "[]" and ls = "[''HI'']" and width = 32 and height = 32] u2 d2
    by simp
  \<comment> \<open>the rendering with the fallback font\<close>
  have c1: "new_canvas corrupt_pil 32 32 False = Inr []"
    by (simp add: new_canvas_def corrupt_pil_def demo_pil_def)
  have c2: "select_font corrupt_pil [] (text_lines ''HI'') 32 32 (Some 12) (Some ''pixel'') = Inr Builtin"
    using render_failure_semantics [where env = corrupt_pil and font = "Some ''pixel''" and sz = 12]
      u2 [of 12] d2
    by (simp add: select_font_def)
  have c3: "\<forall>i. \<forall>l\<in>set (text_lines ''HI''). \<not> raises (textbbox corrupt_pil i Builtin l)"
    "\<forall>i xy. \<forall>l\<in>set (text_lines ''HI'').
        \<not> raises (draw_text corrupt_pil i xy l Builtin (text_fill False))"
    "\<not> raises (image_new corrupt_pil Mode_RGB (32, 32) (RGB 0 0 0))"
    "\<forall>i. \<not> raises (point_255 corrupt_pil i)"
    "\<forall>base i. \<not> raises (paste corrupt_pil base i (0, 0))"
    "\<forall>i. \<not> raises (save_png corrupt_pil i)"
    by (simp_all add: corrupt_pil_def demo_pil_def raises_def)
  have c4: "save_png corrupt_pil out = Inr ?sig" for out
    by (simp add: corrupt_pil_def demo_pil_def)
  have "\<exists>out png. save_png corrupt_pil out = Inr png
          \<and> render_text_to_png corrupt_pil ''HI'' 32 32 False (Some 12) (Some ''pixel'') = Inr png"
    using render_failure_semantics [where env = corrupt_pil and ?text = "''HI''" and width = 32
        and height = 32 and antialias = False and font_size = "Some 12"
        and font = "Some ''pixel''" and img = "[]" and f = Builtin] c1 c2 c3
    by blast
  then have c: "render_text_to_png corrupt_pil ''HI'' 32 32 False (Some 12) (Some ''pixel'') = Inr ?sig"
    by (auto simp: c4)
  \<comment> \<open>a measurement that raises\<close>
  have l: "text_lines ?t = [?t]" by (simp add: text_lines_def)
  have e1: "new_canvas scalable_pil 8 8 False = Inr []"
    by (simp add: new_canvas_def scalable_pil_def demo_pil_def)
  have e2: "select_font scalable_pil [] (text_lines ?t) 8 8 (Some 6) None = Inr Builtin"
    using render_failure_semantics [where env = scalable_pil and font = None and sz = 6] d1
    by (simp add: select_font_def font_unavailable_def)
  have e3: "textbbox scalable_pil [] Builtin ?t = Inl ValueError"
    by (simp add: scalable_pil_def demo_pil_def)
  have "\<exists>x. (\<exists>l\<in>set (text_lines ?t). textbbox scalable_pil [] Builtin l = Inl x)
          \<and> render_text_to_png scalable_pil ?t 8 8 False (Some 6) None = Inl x"
    using render_failure_semantics [where env = scalable_pil and ?text = ?t and width = 8
        and height = 8 and antialias = False and font_size = "Some 6" and font = None
        and img = "[]" and f = Builtin] e1 e2 e3
    by (simp add: l raises_def)
  then have d: "render_text_to_png scalable_pil ?t 8 8 False (Some 6) None = Inl ValueError"
    by (auto simp: l e3)
  show ?thesis using a b c d by simp
qed

text \<open>
  Claim C8 as stated fails: the measurements of \<open>render_text_to_png\<close> itself are outside
  any \<^verbatim>\<open>try\<close>. Where Pillow refuses to measure a string of more than 1000000
  characters, such a text makes every pass of the auto-fit loop fail, the built-in font is
  returned, and the first measurement after that raises ValueError out of the call.
\<close>

theorem long_text_raises:
  "render_text_to_png scalable_pil (replicate 1000001 (CHR ''A'')) 8 8 True None None = Inl ValueError"
proof -
  let ?t = "replicate 1000001 (CHR ''A'')"
  have l: "text_lines ?t = [?t]" by (simp add: text_lines_def)
  have b: "textbbox scalable_pil img f ?t = Inl ValueError" for img f
    by (simp add: scalable_pil_def demo_pil_def)
  have d: "load_default scalable_pil = Inr Builtin"
    by (simp add: scalable_pil_def demo_pil_def)
  have n: "image_new scalable_pil m wh c = Inr []" for m wh c
    by (simp add: scalable_pil_def demo_pil_def)
  have t: "try_size scalable_pil [] [?t] 8 8 None sz = None" for sz
    by (simp add: try_size_def font_for_size_def custom_font_None d b)
  have o: "get_optimal_font scalable_pil [] [?t] 8 8 None = Inr Builtin"
    by (simp add: get_optimal_font_def MIN_FONT_SIZE_def range_down_8_4 t d)
  show ?thesis
    by (simp add: render_text_to_png_def Let_def n l o b)
qed

end
